theory Spec2Isabelle
  imports Complex_Main "HOL-Library.Log_Nat"
begin

section \<open>JavaScript numbers\<close>

text \<open>
  The library computes with the JavaScript type \<open>number\<close>. A value of that type is
  NaN, one of the two infinities, or a finite double. The special values and the way
  they propagate through arithmetic and comparisons follow IEEE 754 as ECMAScript
  prescribes it. A finite double is represented by the real number it denotes, and an
  operation on finite values by the exact real operation: rounding to 53 bits, overflow
  and underflow of finite results are not modelled, and neither is the sign of zero
  (every zero divisor that arises in the library is \<open>+0\<close>).
\<close>

datatype number = NaN | NegInfinity | Fin real | Infinity

fun num_neg :: "number \<Rightarrow> number" where
  "num_neg NaN = NaN"
| "num_neg NegInfinity = Infinity"
| "num_neg (Fin a) = Fin (- a)"
| "num_neg Infinity = NegInfinity"

fun num_add :: "number \<Rightarrow> number \<Rightarrow> number" where
  "num_add NaN y = NaN"
| "num_add x NaN = NaN"
| "num_add (Fin a) (Fin b) = Fin (a + b)"
| "num_add (Fin a) y = y"
| "num_add x (Fin b) = x"
| "num_add Infinity Infinity = Infinity"
| "num_add NegInfinity NegInfinity = NegInfinity"
| "num_add Infinity NegInfinity = NaN"
| "num_add NegInfinity Infinity = NaN"

definition num_sub :: "number \<Rightarrow> number \<Rightarrow> number" where
  "num_sub x y = num_add x (num_neg y)"





fun num_lt :: "number \<Rightarrow> number \<Rightarrow> bool" where
  "num_lt NaN y = False"
| "num_lt x NaN = False"
| "num_lt (Fin a) (Fin b) = (a < b)"
| "num_lt x NegInfinity = False"
| "num_lt Infinity y = False"
| "num_lt NegInfinity y = True"
| "num_lt x Infinity = True"

fun num_eq :: "number \<Rightarrow> number \<Rightarrow> bool" where
  "num_eq NaN y = False"
| "num_eq x NaN = False"
| "num_eq x y = (x = y)"



definition num_ge :: "number \<Rightarrow> number \<Rightarrow> bool" where
  "num_ge x y = (num_lt y x \<or> num_eq x y)"





fun Math_log2 :: "number \<Rightarrow> number" where
  "Math_log2 (Fin a) = (if a < 0 then NaN else if a = 0 then NegInfinity else Fin (log 2 a))"
| "Math_log2 Infinity = Infinity"
| "Math_log2 x = NaN"



text \<open>
  \<open>Number(b)\<close> for a bigint \<open>b\<close>: the double nearest to \<open>b\<close>, a tie going to the
  even significand, and an infinity beyond the range of the doubles. Integers of
  magnitude up to \<open>2^53\<close> are doubles themselves.
\<close>

definition roundToDouble :: "int \<Rightarrow> number" where
  "roundToDouble m =
     (let e = nat (bitlen m - 53);
          q = m div 2 ^ e;
          r = m mod 2 ^ e;
          q' = (if 2 * r > 2 ^ e \<or> (2 * r = 2 ^ e \<and> odd q) then q + 1 else q)
      in if q' * 2 ^ e \<ge> 2 ^ 1024 then Infinity else Fin (of_int (q' * 2 ^ e)))"

definition Number :: "int \<Rightarrow> number" where
  "Number b =
     (if \<bar>b\<bar> \<le> 2 ^ 53 then Fin (of_int b)
      else if 0 < b then roundToDouble b
      else num_neg (roundToDouble (- b)))"

section \<open>The deposit pool\<close>

definition UNIT :: real where
  "UNIT = 1000000000000"

record PoolBucket =
  lo :: real
  hi :: number
  count :: int
  sumAmounts :: int
  sumAmountsSquared :: int

record DepositPoolStats =
  buckets :: "PoolBucket list"

definition standardBucketBoundaries :: "(real \<times> number) list" where
  "standardBucketBoundaries =
     (0, Fin (1 * UNIT)) # map (\<lambda>i. (2 ^ i * UNIT, Fin (2 ^ i * 16 * UNIT))) [0..<12]"

definition createPool :: DepositPoolStats where
  "createPool =
     \<lparr>buckets = map (\<lambda>(l, h). \<lparr>lo = l, hi = h, count = 0, sumAmounts = 0,
                                 sumAmountsSquared = 0\<rparr>) standardBucketBoundaries\<rparr>"

text \<open>The range test \<open>amountNum >= bucket.lo && amountNum < bucket.hi\<close>.\<close>

definition inBucket :: "number \<Rightarrow> PoolBucket \<Rightarrow> bool" where
  "inBucket x b = (num_ge x (Fin (lo b)) \<and> num_lt x (hi b))"

definition addDeposit :: "DepositPoolStats \<Rightarrow> int \<Rightarrow> DepositPoolStats" where
  "addDeposit pool amount =
     (let amountNum = Number amount
      in pool\<lparr>buckets :=
           map (\<lambda>bucket.
                  if inBucket amountNum bucket
                  then bucket\<lparr>count := count bucket + 1,
                              sumAmounts := sumAmounts bucket + amount,
                              sumAmountsSquared := sumAmountsSquared bucket + amount * amount\<rparr>
                  else bucket)
               (buckets pool)\<rparr>)"

definition removeFromBucket :: "int \<Rightarrow> PoolBucket \<Rightarrow> PoolBucket" where
  "removeFromBucket amount bucket =
     (let s = sumAmounts bucket - amount;
          s2 = sumAmountsSquared bucket - amount * amount
      in bucket\<lparr>count := max 0 (count bucket - 1),
                 sumAmounts := (if s < 0 then 0 else s),
                 sumAmountsSquared := (if s2 < 0 then 0 else s2)\<rparr>)"

definition removeDeposit :: "DepositPoolStats \<Rightarrow> int \<Rightarrow> DepositPoolStats" where
  "removeDeposit pool amount =
     (let amountNum = Number amount
      in pool\<lparr>buckets :=
           map (\<lambda>bucket.
                  if inBucket amountNum bucket then removeFromBucket amount bucket else bucket)
               (buckets pool)\<rparr>)"

text \<open>
  A pool in use is the result of a sequence of calls of \<open>addDeposit\<close> and
  \<open>removeDeposit\<close> on the pool that \<open>createPool\<close> returns.
\<close>

datatype poolCall = AddDeposit int | RemoveDeposit int

fun amountOf :: "poolCall \<Rightarrow> int" where
  "amountOf (AddDeposit a) = a"
| "amountOf (RemoveDeposit a) = a"

fun call :: "DepositPoolStats \<Rightarrow> poolCall \<Rightarrow> DepositPoolStats" where
  "call pool (AddDeposit a) = addDeposit pool a"
| "call pool (RemoveDeposit a) = removeDeposit pool a"

definition poolAfter :: "poolCall list \<Rightarrow> DepositPoolStats" where
  "poolAfter calls = foldl call createPool calls"

definition nonNegative :: "PoolBucket \<Rightarrow> bool" where
  "nonNegative b = (0 \<le> count b \<and> 0 \<le> sumAmounts b \<and> 0 \<le> sumAmountsSquared b)"

text \<open>The exclusive upper bound of the topmost standard bucket, \<open>2^11 * 16\<close> units.\<close>

definition topBound :: int where
  "topBound = 32768000000000000"

definition bounds :: "DepositPoolStats \<Rightarrow> (real \<times> number) list" where
  "bounds pool = map (\<lambda>b. (lo b, hi b)) (buckets pool)"

section \<open>Normal distribution and binomial coefficients\<close>



text \<open>
  \<open>log2Binomial(n, k)\<close> for integers \<open>n\<close> and \<open>k\<close>; the loop runs \<open>i\<close> over
  \<open>0, \<dots>, kk - 1\<close>.
\<close>

definition log2Binomial :: "int \<Rightarrow> int \<Rightarrow> number" where
  "log2Binomial n k =
     (if k < 0 \<or> k > n then Fin 0
      else if k = 0 \<or> k = n then Fin 0
      else
        let kk = min k (n - k)
        in foldl (\<lambda>result i.
                    num_add result
                      (num_sub (Math_log2 (Fin (of_int (n - i))))
                               (Math_log2 (Fin (of_int (i + 1))))))
             (Fin 0) [0..kk - 1])"

section \<open>Bucket selection\<close>

text \<open>
  One iteration of the loop of \<open>selectBucket\<close> on the pair of \<open>best\<close> and
  \<open>bestHeadroom\<close>.
\<close>

definition selectStep ::
  "number \<Rightarrow> PoolBucket option \<times> number \<Rightarrow> PoolBucket \<Rightarrow> PoolBucket option \<times> number" where
  "selectStep target state bucket =
     (if count bucket = 0 then state
      else if inBucket target bucket then
        (let headroom = num_sub (hi bucket) target
         in if num_lt headroom (snd state) then (Some bucket, headroom) else state)
      else state)"

definition selectBucket :: "DepositPoolStats \<Rightarrow> number \<Rightarrow> PoolBucket option" where
  "selectBucket pool target = fst (foldl (selectStep target) (None, Infinity) (buckets pool))"

section \<open>The privacy score\<close>




section \<open>Score table, labels and the search for the minimal sacrifice\<close>







section \<open>Serialization\<close>

text \<open>
  \<open>poolToJson\<close> writes the buckets as a JSON array of objects and \<open>poolFromJson\<close> reads
  such an array. The JSON text is represented by the value it denotes, a list of
  \<open>BucketJson\<close>: \<open>JSON.parse\<close> returns what \<open>JSON.stringify\<close> was given for finite
  numbers and strings, and \<open>JSON.stringify\<close> writes \<open>null\<close> for a number that is not
  finite (\<open>None\<close> below). The two sums travel as the decimal strings of
  \<open>BigInt.prototype.toString\<close>, read back by \<open>BigInt(string)\<close>, which throws a
  \<open>SyntaxError\<close> on a string that is no integer literal. ASCII white space is trimmed;
  the other Unicode white space characters are not modelled.

  A \<open>null\<close> read for \<open>hi\<close> is kept by \<open>poolFromJson\<close> as it is. Every use of \<open>hi\<close> in
  the library (the comparisons \<open>< hi\<close> and the difference \<open>hi - target\<close>) converts
  \<open>null\<close> to 0, so it is represented by the number 0.
\<close>

datatype error = SyntaxError

definition digitChar :: "nat \<Rightarrow> char" where
  "digitChar d = ''0123456789'' ! d"

fun natToString :: "nat \<Rightarrow> string" where
  "natToString n = (if n < 10 then [digitChar n] else natToString (n div 10) @ [digitChar (n mod 10)])"

declare natToString.simps [simp del]

definition bigintToString :: "int \<Rightarrow> string" where
  "bigintToString n = (if n < 0 then CHR ''-'' # natToString (nat (- n)) else natToString (nat n))"

definition isWhiteSpace :: "char \<Rightarrow> bool" where
  "isWhiteSpace c = ((of_char c :: nat) \<in> {9, 10, 11, 12, 13, 32})"

definition trim :: "string \<Rightarrow> string" where
  "trim s = rev (dropWhile isWhiteSpace (rev (dropWhile isWhiteSpace s)))"

definition digitValue :: "char \<Rightarrow> nat option" where
  "digitValue c =
     (let v = (of_char c :: nat)
      in if 48 \<le> v \<and> v \<le> 57 then Some (v - 48)
         else if 97 \<le> v \<and> v \<le> 122 then Some (v - 87)
         else if 65 \<le> v \<and> v \<le> 90 then Some (v - 55)
         else None)"

definition parseStep :: "nat \<Rightarrow> nat option \<Rightarrow> char \<Rightarrow> nat option" where
  "parseStep base acc c =
     (case acc of
        None \<Rightarrow> None
      | Some a \<Rightarrow>
          (case digitValue c of
             None \<Rightarrow> None
           | Some d \<Rightarrow> if d < base then Some (a * base + d) else None))"

definition parseDigits :: "nat \<Rightarrow> string \<Rightarrow> nat option" where
  "parseDigits base s = (if s = [] then None else foldl (parseStep base) (Some 0) s)"

definition fromDigits :: "nat \<Rightarrow> string \<Rightarrow> (nat \<Rightarrow> int) \<Rightarrow> error + int" where
  "fromDigits base s sign =
     (case parseDigits base s of None \<Rightarrow> Inl SyntaxError | Some n \<Rightarrow> Inr (sign n))"

fun StringToBigInt :: "string \<Rightarrow> error + int" where
  "StringToBigInt [] = Inr 0"
| "StringToBigInt (c # d # s) =
     (if c = CHR ''0'' \<and> (d = CHR ''x'' \<or> d = CHR ''X'') then fromDigits 16 s int
      else if c = CHR ''0'' \<and> (d = CHR ''o'' \<or> d = CHR ''O'') then fromDigits 8 s int
      else if c = CHR ''0'' \<and> (d = CHR ''b'' \<or> d = CHR ''B'') then fromDigits 2 s int
      else if c = CHR ''-'' then fromDigits 10 (d # s) (\<lambda>n. - int n)
      else if c = CHR ''+'' then fromDigits 10 (d # s) int
      else fromDigits 10 (c # d # s) int)"
| "StringToBigInt [c] = fromDigits 10 [c] int"

definition BigInt :: "string \<Rightarrow> error + int" where
  "BigInt s = StringToBigInt (trim s)"

record BucketJson =
  loJson :: real
  hiJson :: "real option"
  countJson :: int
  sumAmountsJson :: string
  sumAmountsSquaredJson :: string

definition jsonNumber :: "number \<Rightarrow> real option" where
  "jsonNumber x = (case x of Fin r \<Rightarrow> Some r | _ \<Rightarrow> None)"

definition bucketToJson :: "PoolBucket \<Rightarrow> BucketJson" where
  "bucketToJson b =
     \<lparr>loJson = lo b, hiJson = jsonNumber (hi b), countJson = count b,
      sumAmountsJson = bigintToString (sumAmounts b),
      sumAmountsSquaredJson = bigintToString (sumAmountsSquared b)\<rparr>"

definition poolToJson :: "DepositPoolStats \<Rightarrow> BucketJson list" where
  "poolToJson pool = map bucketToJson (buckets pool)"

definition numberOfJson :: "real option \<Rightarrow> number" where
  "numberOfJson j = (case j of Some r \<Rightarrow> Fin r | None \<Rightarrow> Fin 0)"

definition bucketFromJson :: "BucketJson \<Rightarrow> error + PoolBucket" where
  "bucketFromJson b =
     (case BigInt (sumAmountsJson b) of
        Inl e \<Rightarrow> Inl e
      | Inr s \<Rightarrow>
          (case BigInt (sumAmountsSquaredJson b) of
             Inl e \<Rightarrow> Inl e
           | Inr s2 \<Rightarrow>
               Inr \<lparr>lo = loJson b, hi = numberOfJson (hiJson b), count = countJson b,
                    sumAmounts = s, sumAmountsSquared = s2\<rparr>))"

fun mapOrThrow :: "('a \<Rightarrow> error + 'b) \<Rightarrow> 'a list \<Rightarrow> error + 'b list" where
  "mapOrThrow f [] = Inr []"
| "mapOrThrow f (x # xs) =
     (case f x of
        Inl e \<Rightarrow> Inl e
      | Inr y \<Rightarrow> (case mapOrThrow f xs of Inl e \<Rightarrow> Inl e | Inr ys \<Rightarrow> Inr (y # ys)))"

definition poolFromJson :: "BucketJson list \<Rightarrow> error + DepositPoolStats" where
  "poolFromJson json =
     (case mapOrThrow bucketFromJson json of
        Inl e \<Rightarrow> Inl e
      | Inr bs \<Rightarrow> Inr \<lparr>buckets = bs\<rparr>)"

definition isDigit :: "char \<Rightarrow> bool" where
  "isDigit c = (48 \<le> (of_char c :: nat) \<and> (of_char c :: nat) \<le> 57)"

section \<open>The flat variant\<close>












section \<open>Auxiliary notions for the proofs\<close>

text \<open>The headroom of a bucket, and the buckets that \<open>selectBucket\<close> can return.\<close>

definition headroom :: "number \<Rightarrow> PoolBucket \<Rightarrow> number" where
  "headroom target b = num_sub (hi b) target"

definition qualifies :: "number \<Rightarrow> PoolBucket \<Rightarrow> bool" where
  "qualifies target b = (count b \<noteq> 0 \<and> inBucket target b \<and> num_lt (headroom target b) Infinity)"

definition selectInv :: "number \<Rightarrow> PoolBucket set \<Rightarrow> PoolBucket option \<times> number \<Rightarrow> bool" where
  "selectInv target seen state =
     (case fst state of
        None \<Rightarrow> snd state = Infinity \<and> (\<forall>b \<in> seen. \<not> qualifies target b)
      | Some b \<Rightarrow> b \<in> seen \<and> qualifies target b \<and> snd state = headroom target b
          \<and> (\<forall>b' \<in> seen. qualifies target b' \<longrightarrow> \<not> num_lt (headroom target b') (snd state)))"





















section \<open>Evaluation lemmas\<close>


section \<open>Pool statistics never go negative\<close>

lemma nonNegative_createPool:
  "list_all nonNegative (buckets createPool)"
  by (simp add: createPool_def standardBucketBoundaries_def nonNegative_def list_all_iff)

lemma nonNegative_addDeposit:
  assumes "list_all nonNegative (buckets pool)" and "0 \<le> amount"
  shows "list_all nonNegative (buckets (addDeposit pool amount))"
  using assms by (auto simp: addDeposit_def Let_def list_all_iff nonNegative_def)

lemma nonNegative_removeDeposit:
  assumes "list_all nonNegative (buckets pool)"
  shows "list_all nonNegative (buckets (removeDeposit pool amount))"
  using assms
  by (auto simp: removeDeposit_def removeFromBucket_def Let_def list_all_iff nonNegative_def)

lemma nonNegative_foldl:
  assumes "list_all nonNegative (buckets pool)" and "list_all (\<lambda>c. 0 \<le> amountOf c) calls"
  shows "list_all nonNegative (buckets (foldl call pool calls))"
  using assms
proof (induction calls arbitrary: pool)
  case Nil
  then show ?case by simp
next
  case (Cons c calls)
  have "list_all nonNegative (buckets (call pool c))"
    using Cons.prems
    by (cases c) (simp_all add: nonNegative_addDeposit nonNegative_removeDeposit)
  then show ?case using Cons by simp
qed

text \<open>
  Claim C4. After any finite sequence of \<open>addDeposit\<close> and \<open>removeDeposit\<close> calls with
  non-negative amounts on a fresh pool, every bucket has \<open>count \<ge> 0\<close>,
  \<open>sumAmounts \<ge> 0\<close> and \<open>sumAmountsSquared \<ge> 0\<close>. Every prefix of a sequence of calls
  is a sequence of calls, so this holds after every operation.
\<close>

theorem pool_statistics_nonnegative:
  assumes "list_all (\<lambda>c. 0 \<le> amountOf c) calls"
  shows "list_all (\<lambda>b. 0 \<le> count b \<and> 0 \<le> sumAmounts b \<and> 0 \<le> sumAmountsSquared b)
           (buckets (poolAfter calls))"
  using nonNegative_foldl [OF nonNegative_createPool assms]
  by (simp add: poolAfter_def nonNegative_def list_all_iff)

theorem pool_statistics_nonnegative_witness:
  "list_all (\<lambda>c. 0 \<le> amountOf c) [AddDeposit 5, RemoveDeposit 7, RemoveDeposit 7]
   \<and> list_all (\<lambda>b. 0 \<le> count b \<and> 0 \<le> sumAmounts b \<and> 0 \<le> sumAmountsSquared b)
         (buckets (poolAfter [AddDeposit 5, RemoveDeposit 7, RemoveDeposit 7]))
   \<and> map sumAmounts (buckets (poolAfter [AddDeposit 5, RemoveDeposit 7])) ! 0 = 0"
proof -
  have h: "list_all (\<lambda>c. 0 \<le> amountOf c) [AddDeposit 5, RemoveDeposit 7, RemoveDeposit 7]"
    by simp
  have "map sumAmounts (buckets (poolAfter [AddDeposit 5, RemoveDeposit 7])) ! 0 = 0"
    by (simp add: poolAfter_def createPool_def standardBucketBoundaries_def addDeposit_def
        removeDeposit_def removeFromBucket_def inBucket_def Number_def num_ge_def UNIT_def)
  with h pool_statistics_nonnegative [OF h] show ?thesis by blast
qed

section \<open>Amounts beyond the last bucket\<close>

lemma topBound_factor: "topBound = 244140625 * 2 ^ 27"
  by (simp add: topBound_def)

lemma floor_to_multiple:
  fixes m :: int
  assumes "topBound \<le> m" and e: "e = nat (bitlen m - 53)"
  shows "topBound \<le> (m div 2 ^ e) * 2 ^ e"
proof (cases "e \<le> 27")
  case True
  then have "(2::int) ^ e dvd 2 ^ 27" by (rule le_imp_power_dvd)
  then have "(2::int) ^ e dvd topBound" unfolding topBound_factor by (rule dvd_mult)
  then obtain k where k: "topBound = k * 2 ^ e" by (auto simp: dvd_def mult.commute)
  have "(k * 2 ^ e) div 2 ^ e \<le> m div 2 ^ e"
    using assms(1) k by (intro zdiv_mono1) simp_all
  then have "k \<le> m div 2 ^ e" by simp
  then have "k * 2 ^ e \<le> (m div 2 ^ e) * 2 ^ e" by (intro mult_right_mono) simp_all
  then show ?thesis unfolding k .
next
  case False
  have "0 < m" using assms(1) by (simp add: topBound_def)
  from False e have "nat (bitlen m - 1) = e + 52" by linarith
  with bitlen_bounds [OF \<open>0 < m\<close>] have "2 ^ (e + 52) \<le> m" by simp
  then have a: "2 ^ e * 4503599627370496 \<le> m" by (simp add: power_add)
  have b: "m mod 2 ^ e < 2 ^ e" by (rule pos_mod_bound) simp
  have "(2::int) ^ 28 \<le> 2 ^ e" using False by (intro power_increasing) simp_all
  then have c: "(268435456::int) \<le> 2 ^ e" by simp
  have d: "(m div 2 ^ e) * 2 ^ e = m - m mod 2 ^ e"
    by (simp add: minus_mod_eq_div_mult)
  show ?thesis unfolding d topBound_def using a b c by linarith
qed

text \<open>Rounding an amount to a double never takes it below the bound of the last bucket.\<close>

lemma Number_at_least_topBound:
  assumes "topBound \<le> amount" and "x \<le> of_int topBound"
  shows "\<not> num_lt (Number amount) (Fin x)"
proof -
  define e where "e = nat (bitlen amount - 53)"
  define q' where "q' = (if 2 * (amount mod 2 ^ e) > 2 ^ e
      \<or> (2 * (amount mod 2 ^ e) = 2 ^ e \<and> odd (amount div 2 ^ e))
    then amount div 2 ^ e + 1 else amount div 2 ^ e)"
  have big: "\<not> \<bar>amount\<bar> \<le> 2 ^ 53" "0 < amount"
    using assms(1) by (simp_all add: topBound_def)
  have "topBound \<le> (amount div 2 ^ e) * 2 ^ e"
    using assms(1) e_def by (rule floor_to_multiple)
  moreover have "amount div 2 ^ e \<le> q'" by (simp add: q'_def)
  then have "(amount div 2 ^ e) * 2 ^ e \<le> q' * 2 ^ e" by (intro mult_right_mono) simp_all
  ultimately have "topBound \<le> q' * 2 ^ e" by linarith
  then have "real_of_int topBound \<le> real_of_int (q' * 2 ^ e)" by (simp only: of_int_le_iff)
  then have le: "x \<le> real_of_int (q' * 2 ^ e)" using assms(2) by linarith
  have "roundToDouble amount =
      (if q' * 2 ^ e \<ge> 2 ^ 1024 then Infinity else Fin (of_int (q' * 2 ^ e)))"
    by (simp only: roundToDouble_def Let_def e_def q'_def)
  then have "\<not> num_lt (roundToDouble amount) (Fin x)"
    using le by (simp only: num_lt.simps not_less split: if_split) simp
  then show ?thesis using big by (simp add: Number_def)
qed

lemma bounds_createPool: "bounds createPool = standardBucketBoundaries"
  by (simp add: bounds_def createPool_def comp_def case_prod_unfold)

lemma bounds_addDeposit: "bounds (addDeposit pool amount) = bounds pool"
  by (simp add: bounds_def addDeposit_def Let_def comp_def if_distrib cong: if_cong)

lemma bounds_removeDeposit: "bounds (removeDeposit pool amount) = bounds pool"
  by (simp add: bounds_def removeDeposit_def removeFromBucket_def Let_def comp_def if_distrib
      cong: if_cong)

lemma bounds_call: "bounds (call pool c) = bounds pool"
  by (cases c) (simp_all add: bounds_addDeposit bounds_removeDeposit)

lemma bounds_foldl: "bounds (foldl call pool calls) = bounds pool"
  by (induction calls arbitrary: pool) (simp_all add: bounds_call)

lemma bounds_poolAfter: "bounds (poolAfter calls) = standardBucketBoundaries"
  by (simp add: poolAfter_def bounds_foldl bounds_createPool)

lemma standard_hi_bounded:
  assumes "(l, h) \<in> set standardBucketBoundaries"
  shows "\<exists>x. h = Fin x \<and> x \<le> 32768 * UNIT"
proof -
  have "(2::real) ^ i \<le> 2 ^ 11" if "i < 12" for i :: nat
    using that by (intro power_increasing) simp_all
  then show ?thesis
    using assms by (fastforce simp: standardBucketBoundaries_def UNIT_def)
qed

lemma top_in_no_standard_bucket:
  assumes "32768 * UNIT \<le> of_int amount" and "bounds pool = standardBucketBoundaries"
    and "b \<in> set (buckets pool)"
  shows "\<not> inBucket (Number amount) b \<and> \<not> inBucket (Fin (of_int amount)) b"
proof -
  have "(lo b, hi b) \<in> set (bounds pool)"
    using assms(3) by (auto simp: bounds_def)
  then have "(lo b, hi b) \<in> set standardBucketBoundaries"
    by (simp only: assms(2))
  then obtain x where x: "hi b = Fin x" "x \<le> 32768 * UNIT"
    using standard_hi_bounded by blast
  have "real_of_int topBound \<le> of_int amount"
    using assms(1) by (simp add: topBound_def UNIT_def)
  then have "topBound \<le> amount" by (simp only: of_int_le_iff)
  moreover have "x \<le> of_int topBound" using x(2) by (simp add: topBound_def UNIT_def)
  ultimately have "\<not> num_lt (Number amount) (Fin x)" by (rule Number_at_least_topBound)
  moreover have "\<not> num_lt (Fin (of_int amount)) (Fin x)" using x(2) assms(1) by simp
  ultimately show ?thesis by (simp add: inBucket_def x(1))
qed

lemma top_call_unchanged:
  assumes "32768 * UNIT \<le> of_int (amountOf c)" and "bounds pool = standardBucketBoundaries"
  shows "call pool c = pool"
proof -
  have "\<forall>b \<in> set (buckets pool). \<not> inBucket (Number (amountOf c)) b"
    using top_in_no_standard_bucket [OF assms] by blast
  then have "map (\<lambda>b. if inBucket (Number (amountOf c)) b then f b else b) (buckets pool)
      = buckets pool" for f
    by (simp add: map_idI)
  then show ?thesis
    by (cases c) (simp_all add: addDeposit_def removeDeposit_def Let_def)
qed

text \<open>
  Claim C10. An amount of at least \<open>2^11 * 16\<close> units (\<open>32768 * UNIT\<close> planck) lies in
  the range of no bucket of a pool in use, neither as the exact amount nor as the double
  that \<open>addDeposit\<close> and \<open>removeDeposit\<close> test; both calls return the pool unchanged;
  and a sequence of calls builds the same pool with or without a call for such an amount,
  so that no score, which reads only the pool, depends on it.
\<close>

theorem amounts_beyond_top_bucket_ignored:
  assumes "32768 * UNIT \<le> of_int amount"
  shows "list_all (\<lambda>b. \<not> inBucket (Number amount) b \<and> \<not> inBucket (Fin (of_int amount)) b)
           (buckets (poolAfter calls))
       \<and> addDeposit (poolAfter calls) amount = poolAfter calls
       \<and> removeDeposit (poolAfter calls) amount = poolAfter calls
       \<and> poolAfter (calls @ AddDeposit amount # rest) = poolAfter (calls @ rest)
       \<and> poolAfter (calls @ RemoveDeposit amount # rest) = poolAfter (calls @ rest)"
proof -
  have std: "bounds (poolAfter calls) = standardBucketBoundaries" by (rule bounds_poolAfter)
  have "call (poolAfter calls) (AddDeposit amount) = poolAfter calls"
    using assms std by (intro top_call_unchanged) simp_all
  then have add: "addDeposit (poolAfter calls) amount = poolAfter calls" by simp
  have "call (poolAfter calls) (RemoveDeposit amount) = poolAfter calls"
    using assms std by (intro top_call_unchanged) simp_all
  then have rem: "removeDeposit (poolAfter calls) amount = poolAfter calls" by simp
  have "list_all (\<lambda>b. \<not> inBucket (Number amount) b \<and> \<not> inBucket (Fin (of_int amount)) b)
           (buckets (poolAfter calls))"
    using top_in_no_standard_bucket [OF assms std] by (simp add: list_all_iff)
  moreover have "poolAfter (calls @ AddDeposit amount # rest) = poolAfter (calls @ rest)"
    using add by (simp add: poolAfter_def)
  moreover have "poolAfter (calls @ RemoveDeposit amount # rest) = poolAfter (calls @ rest)"
    using rem by (simp add: poolAfter_def)
  ultimately show ?thesis using add rem by blast
qed

theorem amounts_beyond_top_bucket_ignored_witness:
  "32768 * UNIT \<le> of_int 32768000000000000
   \<and> addDeposit (poolAfter [AddDeposit 5]) 32768000000000000 = poolAfter [AddDeposit 5]
   \<and> removeDeposit (poolAfter [AddDeposit 5]) 32768000000000000 = poolAfter [AddDeposit 5]
   \<and> poolAfter ([AddDeposit 5] @ AddDeposit 32768000000000000 # [AddDeposit 7])
       = poolAfter ([AddDeposit 5] @ [AddDeposit 7])"
proof -
  have h: "32768 * UNIT \<le> of_int 32768000000000000" by (simp add: UNIT_def)
  from amounts_beyond_top_bucket_ignored [OF h, of "[AddDeposit 5]" "[AddDeposit 7]"] h
  show ?thesis by blast
qed

section \<open>Symmetry of the logarithm of the binomial coefficient\<close>

lemma log2_terms_finite:
  assumes "\<forall>i \<in> set is. 0 \<le> i \<and> i < n"
  shows "\<exists>r. foldl (\<lambda>result i.
                    num_add result
                      (num_sub (Math_log2 (Fin (of_int (n - i))))
                               (Math_log2 (Fin (of_int (i + 1))))))
             (Fin a) is = Fin r"
  using assms
proof (induction "is" arbitrary: a)
  case Nil
  then show ?case by simp
next
  case (Cons i "is")
  then have "0 \<le> i" "i < n" by simp_all
  then have "num_add (Fin a) (num_sub (Math_log2 (Fin (of_int (n - i))))
                               (Math_log2 (Fin (of_int (i + 1)))))
      = Fin (a + (log 2 (of_int (n - i)) - log 2 (of_int (i + 1))))"
    by (simp add: num_sub_def)
  then show ?case using Cons by simp
qed

lemma log2Binomial_finite: "\<exists>r. log2Binomial n k = Fin r"
proof (cases "k < 0 \<or> k > n \<or> k = 0 \<or> k = n")
  case True
  then show ?thesis by (auto simp: log2Binomial_def)
next
  case False
  then have "\<forall>i \<in> set [0..min k (n - k) - 1]. 0 \<le> i \<and> i < n" by auto
  from log2_terms_finite [OF this, of 0] show ?thesis
    using False by (simp add: log2Binomial_def Let_def)
qed

lemma log2Binomial_mirror: "log2Binomial n (n - k) = log2Binomial n k"
  by (auto simp: log2Binomial_def Let_def min.commute)

lemma log2Binomial_zero:
  assumes "k < 0 \<or> k > n \<or> k = 0 \<or> k = n"
  shows "log2Binomial n k = Fin 0"
  using assms by (auto simp: log2Binomial_def)

text \<open>
  Claim C7. For all integers \<open>n\<close> and \<open>k\<close>, \<open>log2Binomial(n, k)\<close> and
  \<open>log2Binomial(n, n - k)\<close> are equal numbers (neither is NaN), and
  \<open>log2Binomial(n, k)\<close> is 0 when \<open>k < 0\<close>, \<open>k > n\<close>, \<open>k = 0\<close> or \<open>k = n\<close>.
\<close>

theorem log2Binomial_symmetric_and_zero:
  "num_eq (log2Binomial n k) (log2Binomial n (n - k))
   \<and> (k < 0 \<or> k > n \<or> k = 0 \<or> k = n \<longrightarrow> log2Binomial n k = Fin 0)"
proof -
  obtain r where "log2Binomial n k = Fin r" using log2Binomial_finite by blast
  then have "num_eq (log2Binomial n k) (log2Binomial n (n - k))"
    by (simp add: log2Binomial_mirror)
  then show ?thesis using log2Binomial_zero by blast
qed

theorem log2Binomial_symmetric_and_zero_witness:
  "num_eq (log2Binomial 10 3) (log2Binomial 10 (10 - 3))
   \<and> ((5::int) > 4 \<and> log2Binomial 4 5 = Fin 0)
   \<and> log2Binomial 10 10 = Fin 0 \<and> log2Binomial 10 0 = Fin 0 \<and> log2Binomial 10 (- 1) = Fin 0"
  using log2Binomial_symmetric_and_zero [of 10 3] log2Binomial_symmetric_and_zero [of 4 5]
    log2Binomial_symmetric_and_zero [of 10 10] log2Binomial_symmetric_and_zero [of 10 0]
    log2Binomial_symmetric_and_zero [of 10 "- 1"]
  by simp

section \<open>Bucket selection\<close>

lemma num_lt_trans: "num_lt x y \<Longrightarrow> num_lt y z \<Longrightarrow> num_lt x z"
  by (cases x; cases y; cases z) simp_all

lemma selectInv_step:
  assumes "selectInv target seen state"
  shows "selectInv target (insert x seen) (selectStep target state x)"
proof (cases "count x \<noteq> 0 \<and> inBucket target x \<and> num_lt (headroom target x) (snd state)")
  case True
  then have sel: "selectStep target state x = (Some x, headroom target x)"
    by (simp add: selectStep_def headroom_def Let_def)
  have q: "qualifies target x"
    using True by (cases "headroom target x"; cases "snd state") (simp_all add: qualifies_def)
  have "\<not> num_lt (headroom target b') (headroom target x)"
    if "b' \<in> seen" "qualifies target b'" for b'
  proof (cases "fst state")
    case None
    then show ?thesis using assms that by (simp add: selectInv_def)
  next
    case (Some b)
    then have "\<not> num_lt (headroom target b') (snd state)"
      using assms that by (auto simp: selectInv_def)
    then show ?thesis using True num_lt_trans by blast
  qed
  moreover have "\<not> num_lt (headroom target x) (headroom target x)"
    by (cases "headroom target x") simp_all
  ultimately show ?thesis using q by (auto simp: sel selectInv_def)
next
  case False
  then have sel: "selectStep target state x = state"
    by (auto simp: selectStep_def headroom_def Let_def)
  show ?thesis
  proof (cases "fst state")
    case None
    then have "snd state = Infinity" using assms by (simp add: selectInv_def)
    then have "\<not> qualifies target x" using False by (auto simp: qualifies_def)
    then show ?thesis using assms None by (simp add: sel selectInv_def)
  next
    case (Some b)
    then have "qualifies target x \<longrightarrow> \<not> num_lt (headroom target x) (snd state)"
      using False by (auto simp: qualifies_def)
    then show ?thesis using assms Some by (auto simp: sel selectInv_def)
  qed
qed

lemma selectInv_foldl:
  assumes "selectInv target seen state"
  shows "selectInv target (seen \<union> set xs) (foldl (selectStep target) state xs)"
  using assms
proof (induction xs arbitrary: seen state)
  case Nil
  then show ?case by simp
next
  case (Cons x xs)
  from Cons.IH [OF selectInv_step [OF Cons.prems, of x]] show ?case by simp
qed

lemma selectInv_selectBucket:
  "selectInv target (set (buckets pool)) (foldl (selectStep target) (None, Infinity) (buckets pool))"
  using selectInv_foldl [of target "{}" "(None, Infinity)" "buckets pool"]
  by (simp add: selectInv_def)

lemma selectBucket_None:
  "selectBucket pool target = None \<longleftrightarrow> (\<forall>b \<in> set (buckets pool). \<not> qualifies target b)"
  using selectInv_selectBucket [of target pool]
  by (auto simp: selectBucket_def selectInv_def split: option.splits)

lemma selectBucket_Some:
  assumes "selectBucket pool target = Some b"
  shows "b \<in> set (buckets pool) \<and> qualifies target b
     \<and> (\<forall>b' \<in> set (buckets pool). qualifies target b'
          \<longrightarrow> \<not> num_lt (headroom target b') (headroom target b))"
  using selectInv_selectBucket [of target pool] assms
  by (auto simp: selectBucket_def selectInv_def split: option.splits)


lemma qualifies_Fin:
  "qualifies (Fin t) b \<longleftrightarrow> count b \<noteq> 0 \<and> lo b \<le> t \<and> (\<exists>h. hi b = Fin h \<and> t < h)"
  by (cases "hi b") (auto simp: qualifies_def inBucket_def headroom_def num_sub_def num_ge_def)

text \<open>For pools with finite bounds and non-negative counts the selection is as specified.\<close>

lemma selectBucket_finite_pool:
  assumes "\<forall>b \<in> set (buckets pool). 0 \<le> count b \<and> hi b = Fin (h b)"
  shows "(case selectBucket pool (Fin t) of
            None \<Rightarrow> \<not> (\<exists>b \<in> set (buckets pool). 0 < count b \<and> lo b \<le> t \<and> t < h b)
          | Some b \<Rightarrow> b \<in> set (buckets pool) \<and> 0 < count b \<and> lo b \<le> t \<and> t < h b
              \<and> (\<forall>b' \<in> set (buckets pool). 0 < count b' \<and> lo b' \<le> t \<and> t < h b'
                   \<longrightarrow> h b - t \<le> h b' - t))"
proof (cases "selectBucket pool (Fin t)")
  case None
  then have "\<forall>b \<in> set (buckets pool). \<not> qualifies (Fin t) b"
    by (simp add: selectBucket_None)
  then have "\<not> (\<exists>b \<in> set (buckets pool). 0 < count b \<and> lo b \<le> t \<and> t < h b)"
    using assms by (auto simp: qualifies_Fin)
  then show ?thesis by (simp add: None)
next
  case (Some b)
  from selectBucket_Some [OF Some] have b: "b \<in> set (buckets pool)" "qualifies (Fin t) b"
    and least: "\<And>b'. b' \<in> set (buckets pool) \<Longrightarrow> qualifies (Fin t) b'
                 \<Longrightarrow> \<not> num_lt (headroom (Fin t) b') (headroom (Fin t) b)"
    by blast+
  have hb: "hi b = Fin (h b)" "0 \<le> count b" using assms b(1) by simp_all
  have "h b - t \<le> h b' - t"
    if "b' \<in> set (buckets pool)" "0 < count b'" "lo b' \<le> t" "t < h b'" for b'
  proof -
    have hb': "hi b' = Fin (h b')" using assms that(1) by simp
    then have "qualifies (Fin t) b'" using that by (simp add: qualifies_Fin)
    from least [OF that(1) this] show ?thesis
      by (simp add: headroom_def num_sub_def hb hb')
  qed
  then show ?thesis using Some b hb by (auto simp: qualifies_Fin)
qed

text \<open>
  Claim C5. \<open>selectBucket\<close> returns, among the buckets with \<open>count > 0\<close> and
  \<open>lo \<le> target < hi\<close>, one with the least \<open>hi - target\<close>, and none when there is no
  such bucket. The lemma above proves this for pools whose upper bounds are finite. A top
  bucket with \<open>hi = Infinity\<close>, which the interface \<open>PoolBucket\<close> documents, has
  headroom \<open>Infinity\<close>, and the test \<open>headroom < bestHeadroom\<close> against the initial
  \<open>Infinity\<close> is false: evaluated on a pool of that bucket alone, holding one deposit,
  and a target inside its range, \<open>selectBucket\<close> returns none.
\<close>

theorem selectBucket_infinite_top_bucket:
  "selectBucket \<lparr>buckets = [\<lparr>lo = 0, hi = Infinity, count = 1, sumAmounts = 5,
                             sumAmountsSquared = 25\<rparr>]\<rparr> (Fin 3) = None
   \<and> inBucket (Fin 3) \<lparr>lo = 0, hi = Infinity, count = 1, sumAmounts = 5, sumAmountsSquared = 25\<rparr>"
  by (simp add: selectBucket_def selectStep_def inBucket_def num_ge_def num_sub_def)

section \<open>The score table\<close>














section \<open>The flat variant and the bucketed one\<close>
















section \<open>The score in real numbers\<close>










































section \<open>Safety, monotonicity and the search for the minimal sacrifice\<close>































section \<open>The serialization round trip\<close>

lemma of_char_digitChar:
  assumes "d < 10"
  shows "(of_char (digitChar d) :: nat) = 48 + d"
proof -
  have "d \<in> {0, 1, 2, 3, 4, 5, 6, 7, 8, 9}" using assms by auto
  then show ?thesis by (auto simp: digitChar_def)
qed

lemma digitValue_digitChar: "d < 10 \<Longrightarrow> digitValue (digitChar d) = Some d"
  by (simp add: digitValue_def of_char_digitChar)

lemma isDigit_digitChar: "d < 10 \<Longrightarrow> isDigit (digitChar d)"
  by (simp add: isDigit_def of_char_digitChar)

lemma natToString_digits: "natToString n \<noteq> [] \<and> list_all isDigit (natToString n)"
proof (induction n rule: natToString.induct)
  case (1 n)
  show ?case
  proof (cases "n < 10")
    case True
    then show ?thesis by (subst (1 2) natToString.simps) (simp add: isDigit_digitChar)
  next
    case False
    then show ?thesis
      using 1 by (subst (1 2) natToString.simps) (simp add: isDigit_digitChar)
  qed
qed

lemma foldl_parse_natToString:
  "foldl (parseStep 10) (Some a) (natToString n) = Some (a * 10 ^ length (natToString n) + n)"
proof (induction n arbitrary: a rule: natToString.induct)
  case (1 n)
  show ?case
  proof (cases "n < 10")
    case True
    then show ?thesis
      by (subst (1 2) natToString.simps) (simp add: parseStep_def digitValue_digitChar)
  next
    case False
    have "foldl (parseStep 10) (Some a) (natToString n)
        = parseStep 10 (foldl (parseStep 10) (Some a) (natToString (n div 10)))
            (digitChar (n mod 10))"
      using False by (subst natToString.simps) simp
    also have "\<dots> = Some ((a * 10 ^ length (natToString (n div 10)) + n div 10) * 10 + n mod 10)"
      using False by (simp add: "1.IH" parseStep_def digitValue_digitChar)
    also have "\<dots> = Some (a * 10 ^ length (natToString n) + n)"
      using False by (subst (2) natToString.simps) (simp add: algebra_simps)
    finally show ?thesis .
  qed
qed

lemma parseDigits_natToString: "parseDigits 10 (natToString n) = Some n"
  using natToString_digits [of n] foldl_parse_natToString [of 0 n]
  by (simp add: parseDigits_def)

lemma isDigit_not_special:
  assumes "isDigit c"
  shows "\<not> isWhiteSpace c" and "c \<noteq> CHR ''-''" and "c \<noteq> CHR ''+''"
    and "c \<noteq> CHR ''x''" and "c \<noteq> CHR ''X''" and "c \<noteq> CHR ''o''" and "c \<noteq> CHR ''O''"
    and "c \<noteq> CHR ''b''" and "c \<noteq> CHR ''B''"
  using assms by (auto simp: isDigit_def isWhiteSpace_def)

lemma trim_unchanged:
  assumes "s \<noteq> []" and "\<not> isWhiteSpace (hd s)" and "\<not> isWhiteSpace (last s)"
  shows "trim s = s"
proof -
  have "dropWhile isWhiteSpace s = s" using assms(1,2) by (cases s) simp_all
  moreover have "dropWhile isWhiteSpace (rev s) = rev s"
    using assms(1,3) by (cases "rev s") (auto simp: last_rev [symmetric] simp del: last_rev)
  ultimately show ?thesis by (simp add: trim_def)
qed

lemma StringToBigInt_natToString: "StringToBigInt (natToString n) = Inr (int n)"
proof -
  have d: "natToString n \<noteq> []" "list_all isDigit (natToString n)"
    using natToString_digits by simp_all
  have p: "fromDigits 10 (natToString n) int = Inr (int n)"
    by (simp add: fromDigits_def parseDigits_natToString)
  show ?thesis
  proof (cases "natToString n")
    case Nil
    then show ?thesis using d(1) by simp
  next
    case (Cons c r)
    show ?thesis
    proof (cases r)
      case Nil
      then show ?thesis using p Cons by simp
    next
      case (Cons e r')
      have "isDigit c" "isDigit e" using d(2) \<open>natToString n = c # r\<close> Cons by simp_all
      then show ?thesis
        using p \<open>natToString n = c # r\<close> Cons isDigit_not_special by simp
    qed
  qed
qed

lemma StringToBigInt_negative:
  "StringToBigInt (CHR ''-'' # natToString n) = Inr (- int n)"
proof -
  have d: "natToString n \<noteq> []" using natToString_digits by simp
  have p: "fromDigits 10 (natToString n) (\<lambda>n. - int n) = Inr (- int n)"
    by (simp add: fromDigits_def parseDigits_natToString)
  obtain c r where "natToString n = c # r" using d by (cases "natToString n") auto
  then show ?thesis using p by simp
qed

lemma natToString_ends:
  "isDigit (hd (natToString m))" "isDigit (last (natToString m))"
proof -
  have d: "natToString m \<noteq> []" "list_all isDigit (natToString m)"
    using natToString_digits by simp_all
  then have "hd (natToString m) \<in> set (natToString m)" "last (natToString m) \<in> set (natToString m)"
    by simp_all
  then show "isDigit (hd (natToString m))" "isDigit (last (natToString m))"
    using d(2) by (simp_all only: list_all_iff)
qed

lemma trim_natToString: "trim (natToString m) = natToString m"
proof (rule trim_unchanged)
  show "natToString m \<noteq> []" using natToString_digits by simp
  show "\<not> isWhiteSpace (hd (natToString m))"
    using natToString_ends(1) by (rule isDigit_not_special(1))
  show "\<not> isWhiteSpace (last (natToString m))"
    using natToString_ends(2) by (rule isDigit_not_special(1))
qed

lemma trim_negative: "trim (CHR ''-'' # natToString m) = CHR ''-'' # natToString m"
proof (rule trim_unchanged)
  show "CHR ''-'' # natToString m \<noteq> []" by simp
  show "\<not> isWhiteSpace (hd (CHR ''-'' # natToString m))" by (simp add: isWhiteSpace_def)
  have "natToString m \<noteq> []" using natToString_digits by simp
  then have "last (CHR ''-'' # natToString m) = last (natToString m)" by simp
  then show "\<not> isWhiteSpace (last (CHR ''-'' # natToString m))"
    using natToString_ends(2) [of m] isDigit_not_special(1) by simp
qed

lemma BigInt_bigintToString: "BigInt (bigintToString n) = Inr n"
proof (cases "n < 0")
  case True
  then have "bigintToString n = CHR ''-'' # natToString (nat (- n))"
    by (simp add: bigintToString_def)
  then have "BigInt (bigintToString n) = Inr (- int (nat (- n)))"
    by (simp only: BigInt_def trim_negative StringToBigInt_negative)
  then show ?thesis using True by simp
next
  case False
  then have "bigintToString n = natToString (nat n)"
    by (simp add: bigintToString_def)
  then have "BigInt (bigintToString n) = Inr (int (nat n))"
    by (simp only: BigInt_def trim_natToString StringToBigInt_natToString)
  then show ?thesis using False by simp
qed

lemma bucket_round_trip:
  assumes "hi b = Fin h"
  shows "bucketFromJson (bucketToJson b) = Inr b"
  using assms
  by (simp add: bucketFromJson_def bucketToJson_def BigInt_bigintToString jsonNumber_def
      numberOfJson_def)

lemma mapOrThrow_round_trip:
  assumes "\<forall>x \<in> set xs. f (g x) = Inr x"
  shows "mapOrThrow f (map g xs) = Inr xs"
  using assms by (induction xs) simp_all

text \<open>Every pool whose upper bounds are finite is restored from its serialization.\<close>

lemma pool_round_trip:
  assumes "\<forall>b \<in> set (buckets pool). \<exists>h. hi b = Fin h"
  shows "poolFromJson (poolToJson pool) = Inr pool"
proof -
  have "\<forall>b \<in> set (buckets pool). bucketFromJson (bucketToJson b) = Inr b"
    using assms bucket_round_trip by blast
  then have "mapOrThrow bucketFromJson (map bucketToJson (buckets pool)) = Inr (buckets pool)"
    by (rule mapOrThrow_round_trip)
  then show ?thesis by (simp add: poolFromJson_def poolToJson_def)
qed

text \<open>
  Claim C6. For every pool built from \<open>createPool\<close> by calls of \<open>addDeposit\<close> and
  \<open>removeDeposit\<close>, \<open>poolFromJson(poolToJson(pool))\<close> does not throw and returns a pool
  equal to the original: the same buckets in the same order, each with the same \<open>lo\<close>,
  \<open>hi\<close>, \<open>count\<close>, \<open>sumAmounts\<close> and \<open>sumAmountsSquared\<close>. The two sums are
  written as the decimal strings of the exact integers.
\<close>

theorem serialization_round_trip:
  "poolFromJson (poolToJson (poolAfter calls)) = Inr (poolAfter calls)
   \<and> map sumAmountsJson (poolToJson (poolAfter calls))
       = map (\<lambda>b. bigintToString (sumAmounts b)) (buckets (poolAfter calls))
   \<and> map sumAmountsSquaredJson (poolToJson (poolAfter calls))
       = map (\<lambda>b. bigintToString (sumAmountsSquared b)) (buckets (poolAfter calls))"
proof -
  have "\<exists>h. hi b = Fin h" if "b \<in> set (buckets (poolAfter calls))" for b
  proof -
    have "(lo b, hi b) \<in> set (bounds (poolAfter calls))"
      using that by (auto simp: bounds_def)
    then have "(lo b, hi b) \<in> set standardBucketBoundaries"
      by (simp only: bounds_poolAfter)
    then show ?thesis using standard_hi_bounded by blast
  qed
  then have "\<forall>b \<in> set (buckets (poolAfter calls)). \<exists>h. hi b = Fin h" by blast
  then have "poolFromJson (poolToJson (poolAfter calls)) = Inr (poolAfter calls)"
    by (rule pool_round_trip)
  then show ?thesis by (simp add: poolToJson_def bucketToJson_def comp_def)
qed

lemma bigintToString_examples:
  "bigintToString 140014 = ''140014''" "bigintToString (- 42) = ''-42''"
  "bigintToString 0 = ''0''"
  by (simp_all add: bigintToString_def natToString.simps digitChar_def)

lemma BigInt_examples:
  "BigInt ''140014'' = Inr 140014" "BigInt '' 0x1f'' = Inr 31" "BigInt [] = Inr 0"
  "BigInt ''1.5'' = Inl SyntaxError" "BigInt ''-'' = Inl SyntaxError"
  by (simp_all add: BigInt_def trim_def isWhiteSpace_def fromDigits_def parseDigits_def
      parseStep_def digitValue_def)

end
